theory Spec2Isabelle
  imports Main "HOL-Library.AList" "HOL-Library.Multiset" "HOL-Library.Word"
begin

section \<open>Schema nodes and errors\<close>

text \<open>
  The merge tool (second program of \<^verbatim>\<open>src/write-read.go\<close>, lines 218-438) builds its
  schemas from the node constructors of the parquet library: \<^verbatim>\<open>parquet.Int(n)\<close> (here \<open>IntNode n\<close>),
  \<^verbatim>\<open>parquet.Uint(n)\<close>, \<^verbatim>\<open>parquet.Leaf(t)\<close>, \<^verbatim>\<open>parquet.String()\<close>, wrapped in
  \<^verbatim>\<open>parquet.Optional\<close> or \<^verbatim>\<open>parquet.Required\<close>.
\<close>

datatype ptype = FloatType | DoubleType | BooleanType | ByteArrayType

datatype node =
    IntNode nat
  | UintNode nat
  | Leaf ptype
  | String
  | Optional node
  | Required node

text \<open>
  Every failure of the tool is an \<^verbatim>\<open>error\<close> value built by \<^verbatim>\<open>fmt.Errorf\<close>, or one handed up
  from the operating system or the parquet library. The constructors keep the arguments of
  the format strings:
  \<^item> \<^verbatim>\<open>"unsupported type: %s, logical %s"\<close>,
  \<^item> \<^verbatim>\<open>"schema mismatch: %s"\<close>,
  \<^item> \<^verbatim>\<open>"expected to write 1 record, wrote %d"\<close>,
  \<^item> \<^verbatim>\<open>"error creating writer config: %v"\<close>,
  \<^item> \<^verbatim>\<open>"error closing writer: %v"\<close>,
  \<^item> \<^verbatim>\<open>"sourcedir is required"\<close>,
  \<^item> an error of a collaborator (its message),
  \<^item> a panic raised inside a collaborator (its value), which ends the process as well.
\<close>

datatype error =
    UnsupportedType string string
  | SchemaMismatch string
  | WriteCount int
  | WriterConfig string
  | ClosingWriter string
  | SourcedirRequired
  | External string
  | Panic string

section \<open>The type mapper: \<^verbatim>\<open>nodemap\<close>, \<^verbatim>\<open>string_node\<close>, \<^verbatim>\<open>schemaTypeToNode\<close>\<close>

definition nodemap_entries :: "(string \<times> node) list" where
  "nodemap_entries =
    [(''INT8'', Optional (IntNode 8)),
     (''INT16'', Optional (IntNode 16)),
     (''INT32'', Optional (IntNode 32)),
     (''INT64'', Optional (IntNode 64)),
     (''UINT8'', Optional (UintNode 8)),
     (''UINT16'', Optional (UintNode 16)),
     (''UINT32'', Optional (UintNode 32)),
     (''UINT64'', Optional (UintNode 64)),
     (''FLOAT'', Optional (Leaf FloatType)),
     (''DOUBLE'', Optional (Leaf DoubleType)),
     (''BOOLEAN'', Optional (Leaf BooleanType)),
     (''BYTE_ARRAY'', Optional (Leaf ByteArrayType))]"

definition nodemap :: "string \<rightharpoonup> node" where
  "nodemap = map_of nodemap_entries"

definition string_node :: node where
  "string_node = Optional String"

definition schemaTypeToNode :: "string \<Rightarrow> string \<Rightarrow> error + node" where
  "schemaTypeToNode typ logical =
    (if logical = ''STRING'' then Inr string_node
     else case nodemap typ of
       Some node \<Rightarrow> Inr node
     | None \<Rightarrow> Inl (UnsupportedType typ logical))"

text \<open>
  In the Go program the nodes are pointers, allocated once when the package is initialised
  (one per table entry and one for \<^verbatim>\<open>string_node\<close>), and \<^verbatim>\<open>currentNode != v\<close> compares
  the pointers. The model compares the node values. Both agree on everything the mapper
  returns, because two different allocations are different values: see
  \<open>nodemap_entries_distinct\<close> and \<open>string_node_not_in_nodemap\<close>.
\<close>

section \<open>The schema extractor: \<^verbatim>\<open>getSchemaNodes\<close>\<close>

text \<open>
  One element of \<^verbatim>\<open>md.Schema\<close>: its name, \<^verbatim>\<open>schema.Type.String()\<close> (\<open>None\<close> when
  \<^verbatim>\<open>schema.Type == nil\<close>) and \<^verbatim>\<open>schema.LogicalType.String()\<close> (\<open>None\<close> when nil).
\<close>

record descriptor =
  Name :: string
  Type :: "string option"
  LogicalType :: "string option"

text \<open>
  The value of a column in a row is a physical value of the parquet format: a bit pattern
  of one of the physical types BOOLEAN, INT32, INT64, INT96, FLOAT, DOUBLE (the IEEE
  pattern), BYTE_ARRAY and FIXED_LEN_BYTE_ARRAY (the bytes), or null. Signed and unsigned
  integers of every width share the patterns of INT32 and INT64: how a pattern is read is
  said by the logical annotation of the column, not by the value.

  A record of a file: column name to value. A stored row is read as \<open>Inr row\<close>; \<open>Inl msg\<close>
  is a \<^verbatim>\<open>Read\<close> that returns an error other than \<^verbatim>\<open>io.EOF\<close>. The end of the list is
  \<^verbatim>\<open>io.EOF\<close>.
\<close>

datatype val =
    BooleanVal bool
  | Int32Val "32 word"
  | Int64Val "64 word"
  | Int96Val "96 word"
  | FloatVal "32 word"
  | DoubleVal "64 word"
  | ByteArrayVal string
  | FixedLenByteArrayVal string
  | NullVal

type_synonym row = "string \<rightharpoonup> val"

text \<open>
  What a path holds:
  \<^item> \<open>Missing\<close>: nothing, \<^verbatim>\<open>os.Stat\<close> fails;
  \<^item> \<open>NoAccess\<close>: a file that \<^verbatim>\<open>os.Open\<close> cannot open;
  \<^item> \<open>NotParquet\<close>: a file that \<^verbatim>\<open>parquet.OpenFile\<close> rejects (an empty file, a file still
    being written, any other content);
  \<^item> \<open>Parquet ds rs\<close>: a parquet file with the descriptors \<open>ds\<close> in its metadata and the
    rows \<open>rs\<close>;
  \<^item> \<open>Merged schema rs\<close>: a file completed by \<^verbatim>\<open>writer.Close\<close>, with the writer's schema and
    the records it accepted. It is what a run leaves; the inputs of a run are \<open>Parquet\<close>
    entries, and the model does not read a \<open>Merged\<close> entry back.
\<close>

datatype entry =
    Missing
  | NoAccess
  | NotParquet
  | Parquet "descriptor list" "(string + row) list"
  | Merged "string \<rightharpoonup> node" "row list"

type_synonym filesystem = "string \<Rightarrow> entry"

type_synonym nodes = "(string \<times> node) list"

text \<open>
  The loop over \<^verbatim>\<open>md.Schema\<close> (lines 386-407). The Go map \<^verbatim>\<open>nodes\<close> is an association list
  in insertion order; a key is added only when it is absent, so keys stay distinct.
\<close>

fun scanSchema :: "nodes \<Rightarrow> descriptor list \<Rightarrow> error + nodes" where
  "scanSchema nodes [] = Inr nodes"
| "scanSchema nodes (schema # rest) =
    (case Type schema of
       None \<Rightarrow> scanSchema nodes rest
     | Some typ \<Rightarrow>
        (let logicalType = (case LogicalType schema of None \<Rightarrow> [] | Some l \<Rightarrow> l) in
         case schemaTypeToNode typ logicalType of
           Inl err \<Rightarrow> Inl err
         | Inr stype \<Rightarrow>
            (case map_of nodes (Name schema) of
               Some currentNode \<Rightarrow>
                 if currentNode \<noteq> stype then Inl (SchemaMismatch (Name schema))
                 else scanSchema nodes rest
             | None \<Rightarrow> scanSchema (nodes @ [(Name schema, stype)]) rest)))"

definition getSchemaNodes :: "filesystem \<Rightarrow> string \<Rightarrow> error + nodes" where
  "getSchemaNodes fs fname =
    (case fs fname of
       Missing \<Rightarrow> Inl (External (''stat '' @ fname @ '': no such file or directory''))
     | NoAccess \<Rightarrow> Inl (External (''open '' @ fname @ '': permission denied''))
     | Parquet ds rs \<Rightarrow> scanSchema [] ds
     | _ \<Rightarrow> Inl (External ''invalid parquet file''))"

section \<open>Ranging over a Go map\<close>

text \<open>
  \<^verbatim>\<open>for k, v := range m\<close> visits every entry of a Go map once, in an order the language
  leaves unspecified and the runtime randomises. The order is a parameter of the model: a
  list of choices, each picking (modulo the number of entries left) the entry visited
  next. With no choices left the entries come in insertion order.
\<close>

fun rangeOrder :: "nat list \<Rightarrow> 'a list \<Rightarrow> 'a list" where
  "rangeOrder [] xs = xs"
| "rangeOrder (n # choices) xs =
    (if xs = [] then []
     else let i = n mod length xs in
       xs ! i # rangeOrder choices (take i xs @ drop (Suc i) xs))"

section \<open>The environment of a run\<close>

text \<open>
  What the operating system, the Go runtime and the parquet library decide during one run:
  \<^item> \<open>nodes_order i\<close>: the order of \<^verbatim>\<open>range nodes\<close> (line 297) for the \<open>i\<close>-th file of the list;
  \<^item> \<open>files_order\<close>: the order of \<^verbatim>\<open>range fileSchema\<close> (line 318);
  \<^item> \<open>create_error\<close>: the error of \<^verbatim>\<open>os.Create(outfile)\<close>, if any;
  \<^item> \<open>config_error\<close>: the error of \<^verbatim>\<open>parquet.NewWriterConfig\<close>, if any;
  \<^item> \<open>write_result k\<close>: what the \<open>k\<close>-th call of \<^verbatim>\<open>writer.Write\<close> returns, the count and
    the error;
  \<^item> \<open>close_input_error file\<close>: the error of \<^verbatim>\<open>inf.Close()\<close>, if any;
  \<^item> \<open>close_panic\<close>: the value of a panic raised inside \<^verbatim>\<open>writer.Close()\<close>, if any (whether
    closing a writer whose schema has no column panics is decided by the version of the
    library);
  \<^item> \<open>close_error\<close>: the error of \<^verbatim>\<open>writer.Close()\<close>, if any;
  \<^item> \<open>read_dir dir\<close>: the result of \<^verbatim>\<open>os.ReadDir(dir)\<close>, names with their \<^verbatim>\<open>IsDir()\<close>, or
    \<open>None\<close> when it fails.
\<close>

record environment =
  nodes_order :: "nat \<Rightarrow> nat list"
  files_order :: "nat list"
  create_error :: "string option"
  config_error :: "string option"
  write_result :: "nat \<Rightarrow> int \<times> string option"
  close_input_error :: "string \<Rightarrow> string option"
  close_panic :: "string option"
  close_error :: "string option"
  read_dir :: "string \<Rightarrow> (string \<times> bool) list option"

section \<open>The schema merger: first loop of \<^verbatim>\<open>merge\<close> (lines 279-306)\<close>

text \<open>The loop over \<^verbatim>\<open>rfields\<close> with its \<^verbatim>\<open>break\<close> (lines 286-292): the value of \<^verbatim>\<open>keep\<close>.\<close>

fun keep :: "nodes \<Rightarrow> string list \<Rightarrow> bool" where
  "keep nodes [] = True"
| "keep nodes (field # rfields) =
    (case map_of nodes field of
       None \<Rightarrow> False
     | Some _ \<Rightarrow> keep nodes rfields)"

text \<open>The loop over the entries of \<^verbatim>\<open>nodes\<close> (lines 297-305), in the order it visits them.\<close>

fun mergeNodes :: "(string \<rightharpoonup> node) \<Rightarrow> nodes \<Rightarrow> error + (string \<rightharpoonup> node)" where
  "mergeNodes mergedSchema [] = Inr mergedSchema"
| "mergeNodes mergedSchema ((k, v) # rest) =
    (case mergedSchema k of
       Some currentNode \<Rightarrow>
         if currentNode \<noteq> v then Inl (SchemaMismatch k)
         else mergeNodes mergedSchema rest
     | None \<Rightarrow> mergeNodes (mergedSchema(k \<mapsto> v)) rest)"

text \<open>
  The loop over \<^verbatim>\<open>files\<close> (lines 281-306); \<open>i\<close> counts the files seen. The Go map
  \<^verbatim>\<open>fileSchema\<close> is an association list; assigning an existing key keeps its place.
  \<^verbatim>\<open>parquet.NewSchema(file, parquet.Group(nodes))\<close> is represented by \<open>nodes\<close>.
\<close>

fun scanFiles ::
  "environment \<Rightarrow> filesystem \<Rightarrow> string list \<Rightarrow> nat \<Rightarrow> (string \<rightharpoonup> node) \<Rightarrow>
   (string \<times> nodes) list \<Rightarrow> string list \<Rightarrow> error + ((string \<rightharpoonup> node) \<times> (string \<times> nodes) list)"
where
  "scanFiles env fs rfields i mergedSchema fileSchema [] = Inr (mergedSchema, fileSchema)"
| "scanFiles env fs rfields i mergedSchema fileSchema (file # files) =
    (case getSchemaNodes fs file of
       Inl err \<Rightarrow> Inl err
     | Inr nodes \<Rightarrow>
         if \<not> keep nodes rfields
         then scanFiles env fs rfields (Suc i) mergedSchema fileSchema files
         else
           (case mergeNodes mergedSchema (rangeOrder (nodes_order env i) nodes) of
              Inl err \<Rightarrow> Inl err
            | Inr mergedSchema' \<Rightarrow>
                scanFiles env fs rfields (Suc i) mergedSchema'
                  (AList.update file nodes fileSchema) files))"

section \<open>The streaming copier: \<^verbatim>\<open>copyFromFile\<close> (lines 341-367)\<close>

text \<open>
  Modelled from the spec: \<^verbatim>\<open>parquet.GenericWriter\<close> belongs to the parquet library, which is
  not part of the repository. The writer is the schema it is bound to, the records it has
  accepted, and the number of \<^verbatim>\<open>Write\<close> calls it has served. A call with the result
  \<open>(n, err)\<close> has written \<open>n\<close> of the records it was given, their physical values as they
  were handed over; what it returns is decided by the environment. How the output reads a
  pattern is said by the node of the writer's schema.
\<close>

record writer =
  wschema :: "string \<rightharpoonup> node"
  wrows :: "row list"
  wcalls :: nat

definition Write :: "environment \<Rightarrow> writer \<Rightarrow> row list \<Rightarrow> (int \<times> string option) \<times> writer" where
  "Write env w rs =
    (case write_result env (wcalls w) of
       (n, err) \<Rightarrow>
         ((n, err), w\<lparr>wrows := wrows w @ take (nat n) rs, wcalls := Suc (wcalls w)\<rparr>))"

text \<open>
  Modelled from the spec: \<^verbatim>\<open>parquet.NewReader(pf, schema)\<close> belongs to the parquet library,
  which is not part of the repository. Opened with a schema, its \<^verbatim>\<open>Read\<close> fills the record
  with the columns that schema names, from the stored row (the projection is driven by the
  names of the schema); the physical values are those stored.
\<close>

definition Read :: "nodes \<Rightarrow> row \<Rightarrow> row" where
  "Read schema stored = stored |` (fst ` set schema)"

text \<open>The \<^verbatim>\<open>for\<close> loop of lines 349-365 over what the reader yields.\<close>

fun copyRows ::
  "environment \<Rightarrow> nodes \<Rightarrow> (string + row) list \<Rightarrow> writer \<Rightarrow> (error + unit) \<times> writer" where
  "copyRows env schema [] writer = (Inr (), writer)"
| "copyRows env schema (Inl err # rest) writer = (Inl (External err), writer)"
| "copyRows env schema (Inr stored # rest) writer =
    (let record = Read schema stored in
     case Write env writer [record] of
       ((n, Some err), writer') \<Rightarrow> (Inl (External err), writer')
     | ((n, None), writer') \<Rightarrow>
         if n \<noteq> 1 then (Inl (WriteCount n), writer')
         else copyRows env schema rest writer')"

definition copyFromFile ::
  "environment \<Rightarrow> entry \<Rightarrow> writer \<Rightarrow> nodes \<Rightarrow> (error + unit) \<times> writer" where
  "copyFromFile env inf' writer schema =
    (case inf' of
       Parquet ds rs \<Rightarrow> copyRows env schema rs writer
     | _ \<Rightarrow> (Inl (External ''invalid parquet file''), writer))"

section \<open>The orchestrator: \<^verbatim>\<open>merge\<close> (lines 278-339)\<close>

text \<open>The loop over \<^verbatim>\<open>fileSchema\<close> (lines 318-334), in the order it visits the entries.\<close>

fun copyFiles ::
  "environment \<Rightarrow> filesystem \<Rightarrow> (string \<times> nodes) list \<Rightarrow> writer \<Rightarrow> (error + unit) \<times> writer"
where
  "copyFiles env fs [] writer = (Inr (), writer)"
| "copyFiles env fs ((file, schema) # rest) writer =
    (case fs file of
       Missing \<Rightarrow> (Inl (External (''stat '' @ file @ '': no such file or directory'')), writer)
     | NoAccess \<Rightarrow> (Inl (External (''open '' @ file @ '': permission denied'')), writer)
     | inf' \<Rightarrow>
        (case copyFromFile env inf' writer schema of
           (Inl err, writer') \<Rightarrow> (Inl err, writer')
         | (Inr _, writer') \<Rightarrow>
            (case close_input_error env file of
               Some err \<Rightarrow> (Inl (External err), writer')
             | None \<Rightarrow> copyFiles env fs rest writer')))"

text \<open>
  \<^verbatim>\<open>merge\<close> returns the way the process ends (\<open>Inl\<close>: \<^verbatim>\<open>log.Fatal\<close> with that error) and the
  file system it leaves. \<^verbatim>\<open>os.Create(outfile)\<close> creates or truncates the file at
  \<^verbatim>\<open>outfile\<close>; until \<^verbatim>\<open>writer.Close()\<close> has written the footer that file is not a parquet
  file. A panic inside \<^verbatim>\<open>writer.Close()\<close> ends the process there, like \<^verbatim>\<open>log.Fatalf\<close>.
\<close>

definition merge ::
  "environment \<Rightarrow> filesystem \<Rightarrow> string \<Rightarrow> string list \<Rightarrow> string list \<Rightarrow>
   (error + unit) \<times> filesystem" where
  "merge env fs outfile rfields files =
    (case scanFiles env fs rfields 0 Map.empty [] files of
       Inl err \<Rightarrow> (Inl err, fs)
     | Inr (mergedSchema, fileSchema) \<Rightarrow>
        (case create_error env of
           Some err \<Rightarrow> (Inl (External err), fs)
         | None \<Rightarrow>
            (let fs1 = fs(outfile := NotParquet) in
             case config_error env of
               Some err \<Rightarrow> (Inl (WriterConfig err), fs1)
             | None \<Rightarrow>
                (case copyFiles env fs1 (rangeOrder (files_order env) fileSchema)
                        \<lparr>wschema = mergedSchema, wrows = [], wcalls = 0\<rparr> of
                   (Inl err, writer) \<Rightarrow> (Inl err, fs1)
                 | (Inr _, writer) \<Rightarrow>
                    (case close_panic env of
                       Some v \<Rightarrow> (Inl (Panic v), fs1)
                     | None \<Rightarrow>
                        (case close_error env of
                           Some err \<Rightarrow> (Inl (ClosingWriter err), fs1)
                         | None \<Rightarrow>
                            (Inr (), fs1(outfile := Merged (wschema writer) (wrows writer)))))))))"

section \<open>The command line: \<^verbatim>\<open>main\<close> and \<^verbatim>\<open>findFiles\<close> (lines 244-276)\<close>

text \<open>\<^verbatim>\<open>strings.Split(s, sep)\<close> for a separator of one character.\<close>

fun Split :: "string \<Rightarrow> char \<Rightarrow> string list" where
  "Split [] sep = [[]]"
| "Split (c # cs) sep =
    (if c = sep then [] # Split cs sep
     else case Split cs sep of
       [] \<Rightarrow> [[c]]
     | w # ws \<Rightarrow> (c # w) # ws)"

definition HasSuffix :: "string \<Rightarrow> string \<Rightarrow> bool" where
  "HasSuffix s suffix =
    (length suffix \<le> length s \<and> drop (length s - length suffix) s = suffix)"

fun parquetFiles :: "string \<Rightarrow> (string \<times> bool) list \<Rightarrow> string list" where
  "parquetFiles dir [] = []"
| "parquetFiles dir ((name, isDir) # files) =
    (if isDir then parquetFiles dir files
     else if HasSuffix name ''.parquet'' then (dir @ ''/'' @ name) # parquetFiles dir files
     else parquetFiles dir files)"

definition findFiles :: "environment \<Rightarrow> string \<Rightarrow> error + string list" where
  "findFiles env dir =
    (case read_dir env dir of
       None \<Rightarrow> Inl (External (''open '' @ dir @ '': no such file or directory''))
     | Some files \<Rightarrow> Inr (parquetFiles dir files))"

text \<open>
  \<^verbatim>\<open>main\<close> with the values of the flags \<^verbatim>\<open>-sourcedir\<close>, \<^verbatim>\<open>-outfile\<close> and
  \<^verbatim>\<open>-requireFields\<close> (each the empty string when the flag is not given).
\<close>

definition main ::
  "environment \<Rightarrow> filesystem \<Rightarrow> string \<Rightarrow> string \<Rightarrow> string \<Rightarrow> (error + unit) \<times> filesystem" where
  "main env fs sourcedir outfile requireFields =
    (if sourcedir = [] then (Inl SourcedirRequired, fs)
     else
       let outfile' = (if outfile = [] then ''merged.parquet'' else outfile);
           rfields = Split requireFields CHR '',''
       in case findFiles env sourcedir of
            Inl err \<Rightarrow> (Inl err, fs)
          | Inr files \<Rightarrow> merge env fs outfile' rfields files)"

section \<open>The sibling writer: \<^verbatim>\<open>ParquetMapWriter\<close> (first program, lines 71-107)\<close>

text \<open>
  The first program of \<^verbatim>\<open>src/write-read.go\<close> writes through \<^verbatim>\<open>ParquetMapWriter\<close>, which
  creates \<^verbatim>\<open>filename + ".tmp"\<close> and renames it to \<^verbatim>\<open>filename\<close> in \<^verbatim>\<open>Close\<close>, after the
  parquet writer has been closed. \<open>rename_error\<close> is the error of \<^verbatim>\<open>os.Rename\<close>, if any.
\<close>

record ParquetMapWriter =
  pwriter :: writer
  filename :: string
  tmpname :: string

definition NewParquetMapWriter ::
  "environment \<Rightarrow> filesystem \<Rightarrow> string \<Rightarrow> (string \<rightharpoonup> node) \<Rightarrow>
   (error + ParquetMapWriter) \<times> filesystem" where
  "NewParquetMapWriter env fs fname schema =
    (let tmp = fname @ ''.tmp'' in
     case create_error env of
       Some err \<Rightarrow> (Inl (External (''error creating file: '' @ err)), fs)
     | None \<Rightarrow>
        (let fs1 = fs(tmp := NotParquet) in
         case config_error env of
           Some err \<Rightarrow> (Inl (External (''error creating writer config: '' @ err)), fs1)
         | None \<Rightarrow>
            (Inr \<lparr>pwriter = \<lparr>wschema = schema, wrows = [], wcalls = 0\<rparr>,
                  filename = fname, tmpname = tmp\<rparr>, fs1)))"

definition WriteRows ::
  "environment \<Rightarrow> ParquetMapWriter \<Rightarrow> row list \<Rightarrow> (int \<times> string option) \<times> ParquetMapWriter" where
  "WriteRows env w rs =
    (case Write env (pwriter w) rs of (res, writer') \<Rightarrow> (res, w\<lparr>pwriter := writer'\<rparr>))"

definition Close ::
  "environment \<Rightarrow> string option \<Rightarrow> filesystem \<Rightarrow> ParquetMapWriter \<Rightarrow>
   (error + unit) \<times> filesystem" where
  "Close env rename_error fs w =
    (case close_panic env of
       Some v \<Rightarrow> (Inl (Panic v), fs)
     | None \<Rightarrow>
        (case close_error env of
           Some err \<Rightarrow> (Inl (External (''error closing writer: '' @ err)), fs)
         | None \<Rightarrow>
            (let fs1 = fs(tmpname w := Merged (wschema (pwriter w)) (wrows (pwriter w))) in
             case rename_error of
               Some err \<Rightarrow> (Inl (External (''error renaming file: '' @ err)), fs1)
             | None \<Rightarrow> (Inr (), fs1(filename w := fs1 (tmpname w), tmpname w := Missing)))))"

section \<open>Notions used to state the properties\<close>

text \<open>
  The retained files of a run: the files of the list whose schema is extracted and passes
  the \<^verbatim>\<open>keep\<close> test of lines 286-295. \<open>fileNodes\<close> is the extracted schema of a file and
  \<open>storedRows\<close> the rows it holds.
\<close>

definition retained :: "filesystem \<Rightarrow> string list \<Rightarrow> string list \<Rightarrow> string list" where
  "retained fs rfields files =
    filter (\<lambda>file. case getSchemaNodes fs file of Inl err \<Rightarrow> False | Inr nodes \<Rightarrow> keep nodes rfields)
      files"

definition fileNodes :: "filesystem \<Rightarrow> string \<Rightarrow> nodes" where
  "fileNodes fs file = (case getSchemaNodes fs file of Inl err \<Rightarrow> [] | Inr nodes \<Rightarrow> nodes)"

text \<open>\<open>binds fs fileset c t\<close>: some file of \<open>fileset\<close> has the column \<open>c\<close> with the node \<open>t\<close>.\<close>

definition binds :: "filesystem \<Rightarrow> string list \<Rightarrow> string \<Rightarrow> node \<Rightarrow> bool" where
  "binds fs fileset c t \<longleftrightarrow> (\<exists>file \<in> set fileset. map_of (fileNodes fs file) c = Some t)"

text \<open>
  The integer a column holds for a physical value, as the node that types the column reads
  it: \<^verbatim>\<open>parquet.Int(n)\<close> reads the pattern signed, \<^verbatim>\<open>parquet.Uint(n)\<close> unsigned (the
  \<^verbatim>\<open>INT(n, signed)\<close> annotation of the parquet format).
\<close>

fun intValue :: "node \<Rightarrow> val \<Rightarrow> int option" where
  "intValue (Optional n) v = intValue n v"
| "intValue (Required n) v = intValue n v"
| "intValue (IntNode b) (Int32Val w) = Some (sint w)"
| "intValue (IntNode b) (Int64Val w) = Some (sint w)"
| "intValue (UintNode b) (Int32Val w) = Some (uint w)"
| "intValue (UintNode b) (Int64Val w) = Some (uint w)"
| "intValue n v = None"

fun rowsOf :: "(string + row) list \<Rightarrow> row list" where
  "rowsOf [] = []"
| "rowsOf (Inl err # rest) = rowsOf rest"
| "rowsOf (Inr stored # rest) = stored # rowsOf rest"

definition storedRows :: "filesystem \<Rightarrow> string \<Rightarrow> row list" where
  "storedRows fs file = (case fs file of Parquet ds rs \<Rightarrow> rowsOf rs | _ \<Rightarrow> [])"

section \<open>Concrete inputs\<close>

text \<open>An environment in which every call succeeds and maps are ranged in insertion order.\<close>

definition quiet :: environment where
  "quiet =
    \<lparr>nodes_order = (\<lambda>i. []), files_order = [], create_error = None, config_error = None,
     write_result = (\<lambda>k. (1, None)), close_input_error = (\<lambda>file. None),
     close_panic = None, close_error = None,
     read_dir = (\<lambda>dir. None)\<rparr>"

definition col :: "string \<Rightarrow> string \<Rightarrow> string option \<Rightarrow> descriptor" where
  "col name physical logical = \<lparr>Name = name, Type = Some physical, LogicalType = logical\<rparr>"

definition group :: "string \<Rightarrow> descriptor" where
  "group name = \<lparr>Name = name, Type = None, LogicalType = None\<rparr>"

text \<open>
  A directory \<^verbatim>\<open>in\<close> with the parquet files used in the examples: \<^verbatim>\<open>a.parquet\<close> with the
  column \<open>x\<close> (INT64) and one row, \<^verbatim>\<open>b.parquet\<close> with the same column and one row,
  \<^verbatim>\<open>s.parquet\<close> and \<^verbatim>\<open>f.parquet\<close> where \<open>x\<close> is a string and a boolean, \<^verbatim>\<open>y.parquet\<close> with
  a string column \<open>y\<close>, \<^verbatim>\<open>u.parquet\<close> with an unsigned 64-bit column \<open>u\<close> (physical type
  INT64 with the unsigned integer annotation, written \<^verbatim>\<open>INT(64,false)\<close>; any annotation other
  than \<^verbatim>\<open>STRING\<close> takes the same path) holding 18446744073709551615, the pattern of all
  ones, and \<^verbatim>\<open>t.parquet\<close> whose second \<^verbatim>\<open>Read\<close> fails. Nothing exists at \<^verbatim>\<open>out.parquet\<close>.
\<close>

definition disk :: filesystem where
  "disk =
    (\<lambda>path. Missing)
      (''in/a.parquet'' :=
         Parquet [group ''root'', col ''x'' ''INT64'' None] [Inr [''x'' \<mapsto> Int64Val 1]],
       ''in/b.parquet'' :=
         Parquet [group ''root'', col ''x'' ''INT64'' None] [Inr [''x'' \<mapsto> Int64Val 2]],
       ''in/s.parquet'' :=
         Parquet [group ''root'', col ''x'' ''BYTE_ARRAY'' (Some ''STRING'')] [],
       ''in/f.parquet'' :=
         Parquet [group ''root'', col ''x'' ''BOOLEAN'' None] [],
       ''in/y.parquet'' :=
         Parquet [group ''root'', col ''y'' ''BYTE_ARRAY'' (Some ''STRING'')]
           [Inr [''y'' \<mapsto> ByteArrayVal ''hi'']],
       ''in/u.parquet'' :=
         Parquet [group ''root'', col ''u'' ''INT64'' (Some ''INT(64,false)'')]
           [Inr [''u'' \<mapsto> Int64Val 18446744073709551615]],
       ''in/t.parquet'' :=
         Parquet [group ''root'', col ''x'' ''INT64'' None]
           [Inr [''x'' \<mapsto> Int64Val 3], Inl ''unexpected EOF'', Inr [''x'' \<mapsto> Int64Val 4]])"

definition listing :: "string \<Rightarrow> (string \<times> bool) list option" where
  "listing dir =
    (if dir = ''in'' then Some [(''a.parquet'', False), (''notes.txt'', False), (''old'', True)]
     else None)"

section \<open>Properties of the type mapper\<close>

lemma nodemap_entries_distinct: "distinct (map snd nodemap_entries)"
  by (simp add: nodemap_entries_def)

lemma string_node_not_in_nodemap: "string_node \<notin> snd ` set nodemap_entries"
  by (simp add: nodemap_entries_def string_node_def)

text \<open>
  Claim C9. The type mapper: with the logical annotation \<open>STRING\<close> the result is the string
  node whatever the raw descriptor is; otherwise each of the twelve descriptors of the
  table maps to its one node, and every other descriptor fails with the unsupported-type
  error that carries both strings.
\<close>

theorem schemaTypeToNode_table:
  "schemaTypeToNode typ ''STRING'' = Inr (Optional String) \<and>
   (logical \<noteq> ''STRING'' \<longrightarrow>
      schemaTypeToNode ''INT8'' logical = Inr (Optional (IntNode 8)) \<and>
      schemaTypeToNode ''INT16'' logical = Inr (Optional (IntNode 16)) \<and>
      schemaTypeToNode ''INT32'' logical = Inr (Optional (IntNode 32)) \<and>
      schemaTypeToNode ''INT64'' logical = Inr (Optional (IntNode 64)) \<and>
      schemaTypeToNode ''UINT8'' logical = Inr (Optional (UintNode 8)) \<and>
      schemaTypeToNode ''UINT16'' logical = Inr (Optional (UintNode 16)) \<and>
      schemaTypeToNode ''UINT32'' logical = Inr (Optional (UintNode 32)) \<and>
      schemaTypeToNode ''UINT64'' logical = Inr (Optional (UintNode 64)) \<and>
      schemaTypeToNode ''FLOAT'' logical = Inr (Optional (Leaf FloatType)) \<and>
      schemaTypeToNode ''DOUBLE'' logical = Inr (Optional (Leaf DoubleType)) \<and>
      schemaTypeToNode ''BOOLEAN'' logical = Inr (Optional (Leaf BooleanType)) \<and>
      schemaTypeToNode ''BYTE_ARRAY'' logical = Inr (Optional (Leaf ByteArrayType)) \<and>
      (typ \<notin> {''INT8'', ''INT16'', ''INT32'', ''INT64'', ''UINT8'', ''UINT16'', ''UINT32'',
               ''UINT64'', ''FLOAT'', ''DOUBLE'', ''BOOLEAN'', ''BYTE_ARRAY''} \<longrightarrow>
       schemaTypeToNode typ logical = Inl (UnsupportedType typ logical)))"
proof (intro conjI impI)
  show "schemaTypeToNode typ ''STRING'' = Inr (Optional String)"
    by (simp add: schemaTypeToNode_def string_node_def)
next
  assume "logical \<noteq> ''STRING''"
    and "typ \<notin> {''INT8'', ''INT16'', ''INT32'', ''INT64'', ''UINT8'', ''UINT16'', ''UINT32'',
               ''UINT64'', ''FLOAT'', ''DOUBLE'', ''BOOLEAN'', ''BYTE_ARRAY''}"
  then show "schemaTypeToNode typ logical = Inl (UnsupportedType typ logical)"
    by (simp add: schemaTypeToNode_def nodemap_def nodemap_entries_def)
qed (simp_all add: schemaTypeToNode_def nodemap_def nodemap_entries_def)

theorem schemaTypeToNode_table_witness:
  "schemaTypeToNode ''BYTE_ARRAY'' ''STRING'' = Inr (Optional String) \<and>
   schemaTypeToNode ''INT64'' [] = Inr (Optional (IntNode 64)) \<and>
   schemaTypeToNode ''INT96'' ''DECIMAL'' = Inl (UnsupportedType ''INT96'' ''DECIMAL'')"
  using schemaTypeToNode_table [of "''BYTE_ARRAY''" "[]"]
    schemaTypeToNode_table [of "''INT96''" "''DECIMAL''"]
  by simp
section \<open>Properties of the schema extractor\<close>

lemma scanSchema_append:
  "scanSchema nodes (xs @ ys) =
    (case scanSchema nodes xs of Inl err \<Rightarrow> Inl err | Inr nodes' \<Rightarrow> scanSchema nodes' ys)"
  by (induction xs arbitrary: nodes) (auto split: option.splits sum.splits simp: Let_def)

lemma scanSchema_distinct:
  "scanSchema nodes ds = Inr nodes' \<Longrightarrow> distinct (map fst nodes) \<Longrightarrow> distinct (map fst nodes')"
proof (induction ds arbitrary: nodes)
  case Nil
  then show ?case by simp
next
  case (Cons d ds)
  show ?case
  proof (cases "Type d")
    case None
    with Cons show ?thesis by simp
  next
    case (Some ty)
    with Cons.prems obtain stype where
      st: "schemaTypeToNode ty (case LogicalType d of None \<Rightarrow> [] | Some l \<Rightarrow> l) = Inr stype"
      by (auto split: sum.splits simp: Let_def)
    show ?thesis
    proof (cases "map_of nodes (Name d)")
      case None
      then have "Name d \<notin> fst ` set nodes" by (simp add: map_of_eq_None_iff)
      with Cons.prems(2) have "distinct (map fst (nodes @ [(Name d, stype)]))" by simp
      moreover from Cons.prems(1) Some st None
      have "scanSchema (nodes @ [(Name d, stype)]) ds = Inr nodes'" by (simp add: Let_def)
      ultimately show ?thesis by (rule Cons.IH [rotated])
    next
      case (Some cur)
      with Cons.prems(1) \<open>Type d = Some ty\<close> st
      have "scanSchema nodes ds = Inr nodes'" by (simp add: Let_def split: if_splits)
      then show ?thesis using Cons.prems(2) by (rule Cons.IH)
    qed
  qed
qed

lemma scanSchema_keeps:
  "scanSchema nodes ds = Inr nodes' \<Longrightarrow> map_of nodes k = Some t \<Longrightarrow> map_of nodes' k = Some t"
proof (induction ds arbitrary: nodes)
  case Nil
  then show ?case by simp
next
  case (Cons d ds)
  show ?case
  proof (cases "Type d")
    case None
    with Cons show ?thesis by simp
  next
    case (Some ty)
    with Cons.prems obtain stype where
      st: "schemaTypeToNode ty (case LogicalType d of None \<Rightarrow> [] | Some l \<Rightarrow> l) = Inr stype"
      by (auto split: sum.splits simp: Let_def)
    show ?thesis
    proof (cases "map_of nodes (Name d)")
      case None
      with Cons.prems(2) have "map_of (nodes @ [(Name d, stype)]) k = Some t" by simp
      moreover from Cons.prems(1) Some st None
      have "scanSchema (nodes @ [(Name d, stype)]) ds = Inr nodes'" by (simp add: Let_def)
      ultimately show ?thesis by (rule Cons.IH [rotated])
    next
      case (Some cur)
      with Cons.prems(1) \<open>Type d = Some ty\<close> st
      have "scanSchema nodes ds = Inr nodes'" by (simp add: Let_def split: if_splits)
      then show ?thesis using Cons.prems(2) by (rule Cons.IH)
    qed
  qed
qed

text \<open>
  Claim C8. Extraction of one file, at a descriptor \<open>d\<close> reached with the bindings \<open>nodes\<close>
  of the descriptors before it: a descriptor with no type is skipped; a first occurrence of
  a name binds it; a repeated name whose mapped type equals the first binding changes
  nothing; a repeated name with a different mapped type makes the extraction fail with the
  schema-mismatch error on that name; and a binding, once made, is the one the extraction
  returns.
\<close>

theorem getSchemaNodes_repeated_name:
  assumes stored: "fs fname = Parquet (before @ d # rest) rs"
      and before: "scanSchema [] before = Inr nodes"
  shows "(Type d = None \<longrightarrow> getSchemaNodes fs fname = scanSchema nodes rest) \<and>
         (\<forall>ty stype.
            Type d = Some ty \<and>
            schemaTypeToNode ty (case LogicalType d of None \<Rightarrow> [] | Some l \<Rightarrow> l) = Inr stype \<longrightarrow>
              (map_of nodes (Name d) = None \<longrightarrow>
                 getSchemaNodes fs fname = scanSchema (nodes @ [(Name d, stype)]) rest) \<and>
              (map_of nodes (Name d) = Some stype \<longrightarrow>
                 getSchemaNodes fs fname = scanSchema nodes rest) \<and>
              (\<forall>first. map_of nodes (Name d) = Some first \<and> first \<noteq> stype \<longrightarrow>
                 getSchemaNodes fs fname = Inl (SchemaMismatch (Name d)))) \<and>
         (\<forall>nodes' first.
            getSchemaNodes fs fname = Inr nodes' \<and> map_of nodes (Name d) = Some first \<longrightarrow>
              map_of nodes' (Name d) = Some first)"
proof -
  have g: "getSchemaNodes fs fname = scanSchema nodes (d # rest)"
    using stored before by (simp add: getSchemaNodes_def scanSchema_append)
  have "\<And>nodes' first. scanSchema nodes (d # rest) = Inr nodes' \<Longrightarrow>
      map_of nodes (Name d) = Some first \<Longrightarrow> map_of nodes' (Name d) = Some first"
    by (rule scanSchema_keeps)
  then show ?thesis
    unfolding g by (auto simp: Let_def)
qed

lemmas mapper_defs = schemaTypeToNode_def nodemap_def nodemap_entries_def string_node_def

theorem getSchemaNodes_repeated_name_witness:
  "getSchemaNodes
     ((\<lambda>p. Missing)(''a.parquet'' :=
        Parquet [group ''root'', col ''x'' ''INT64'' None, group ''g'',
                 col ''x'' ''INT64'' None] []))
     ''a.parquet'' = Inr [(''x'', Optional (IntNode 64))] \<and>
   getSchemaNodes
     ((\<lambda>p. Missing)(''b.parquet'' :=
        Parquet [group ''root'', col ''x'' ''INT64'' None,
                 col ''x'' ''BYTE_ARRAY'' (Some ''STRING''), col ''y'' ''DOUBLE'' None] []))
     ''b.parquet'' = Inl (SchemaMismatch ''x'')"
  using
    getSchemaNodes_repeated_name [of
      "(\<lambda>p. Missing)(''a.parquet'' :=
        Parquet [group ''root'', col ''x'' ''INT64'' None, group ''g'',
                 col ''x'' ''INT64'' None] [])"
      "''a.parquet''" "[group ''root'', col ''x'' ''INT64'' None]" "group ''g''"
      "[col ''x'' ''INT64'' None]" "[]" "[(''x'', Optional (IntNode 64))]"]
    getSchemaNodes_repeated_name [of
      "(\<lambda>p. Missing)(''a.parquet'' :=
        Parquet [group ''root'', col ''x'' ''INT64'' None, group ''g'',
                 col ''x'' ''INT64'' None] [])"
      "''a.parquet''" "[group ''root'', col ''x'' ''INT64'' None, group ''g'']"
      "col ''x'' ''INT64'' None" "[]" "[]" "[(''x'', Optional (IntNode 64))]"]
    getSchemaNodes_repeated_name [of
      "(\<lambda>p. Missing)(''b.parquet'' :=
        Parquet [group ''root'', col ''x'' ''INT64'' None,
                 col ''x'' ''BYTE_ARRAY'' (Some ''STRING''), col ''y'' ''DOUBLE'' None] [])"
      "''b.parquet''" "[group ''root'', col ''x'' ''INT64'' None]"
      "col ''x'' ''BYTE_ARRAY'' (Some ''STRING'')" "[col ''y'' ''DOUBLE'' None]" "[]"
      "[(''x'', Optional (IntNode 64))]"]
  by (simp add: col_def group_def mapper_defs)

section \<open>Properties of the streaming copier\<close>

lemma copyRows_accepted:
  assumes "\<forall>k < length pre. write_result env (wcalls w + k) = (1, None)"
  shows "copyRows env schema (map Inr pre @ rest) w =
         copyRows env schema rest
           (w\<lparr>wrows := wrows w @ map (Read schema) pre, wcalls := wcalls w + length pre\<rparr>)"
  using assms
proof (induction pre arbitrary: w)
  case Nil
  then show ?case by simp
next
  case (Cons r pre)
  let ?w = "w\<lparr>wrows := wrows w @ [Read schema r], wcalls := Suc (wcalls w)\<rparr>"
  from Cons.prems have first: "write_result env (wcalls w) = (1, None)" by force
  have "\<forall>k < length pre. write_result env (wcalls ?w + k) = (1, None)"
  proof (intro allI impI)
    fix k assume "k < length pre"
    then have "Suc k < length (r # pre)" by simp
    with Cons.prems have "write_result env (wcalls w + Suc k) = (1, None)" by blast
    then show "write_result env (wcalls ?w + k) = (1, None)" by simp
  qed
  then have "copyRows env schema (map Inr pre @ rest) ?w =
         copyRows env schema rest
           (?w\<lparr>wrows := wrows ?w @ map (Read schema) pre, wcalls := wcalls ?w + length pre\<rparr>)"
    by (rule Cons.IH)
  then show ?case using first by (simp add: Write_def)
qed

text \<open>
  Claim C7. During the copy of a file, after any number of accepted records, a
  \<^verbatim>\<open>Write\<close> that reports a count \<open>n\<close> other than 1 ends the copy at once: \<^verbatim>\<open>copyFromFile\<close>
  returns an error, which is the write-count error carrying \<open>n\<close> when the call reported no
  error of its own (and that error otherwise); no later record is read or written, as the
  number of \<^verbatim>\<open>Write\<close> calls and the records held by the writer show.
\<close>

theorem write_count_mismatch_stops:
  assumes accepted: "\<forall>k < length pre. write_result env (wcalls w + k) = (1, None)"
      and reported: "write_result env (wcalls w + length pre) = (n, err)"
      and mismatch: "n \<noteq> 1"
  shows "copyFromFile env (Parquet ds (map Inr pre @ Inr stored # rest)) w schema =
           (Inl (case err of None \<Rightarrow> WriteCount n | Some msg \<Rightarrow> External msg),
            w\<lparr>wrows := wrows w @ map (Read schema) pre @ take (nat n) [Read schema stored],
              wcalls := wcalls w + length pre + 1\<rparr>)"
  using reported mismatch
  by (cases err) (simp_all add: copyFromFile_def copyRows_accepted [OF accepted] Write_def)

theorem write_count_mismatch_stops_witness:
  "copyFromFile (quiet\<lparr>write_result := (\<lambda>k. if k = 0 then (1, None) else (0, None))\<rparr>)
     (Parquet [col ''x'' ''INT64'' None]
        [Inr [''x'' \<mapsto> Int64Val 1], Inr [''x'' \<mapsto> Int64Val 2], Inr [''x'' \<mapsto> Int64Val 3]])
     \<lparr>wschema = [''x'' \<mapsto> Optional (IntNode 64)], wrows = [], wcalls = 0\<rparr>
     [(''x'', Optional (IntNode 64))] =
   (Inl (WriteCount 0),
    \<lparr>wschema = [''x'' \<mapsto> Optional (IntNode 64)],
     wrows = [Read [(''x'', Optional (IntNode 64))] [''x'' \<mapsto> Int64Val 1]], wcalls = 2\<rparr>)"
  using write_count_mismatch_stops [of "[[''x'' \<mapsto> Int64Val 1]]"
      "quiet\<lparr>write_result := (\<lambda>k. if k = 0 then (1, None) else (0, None))\<rparr>"
      "\<lparr>wschema = [''x'' \<mapsto> Optional (IntNode 64)], wrows = [], wcalls = 0\<rparr>"
      0 None "[col ''x'' ''INT64'' None]" "[''x'' \<mapsto> Int64Val 2]"
      "[Inr [''x'' \<mapsto> Int64Val 3]]" "[(''x'', Optional (IntNode 64))]"]
  by (simp add: quiet_def)
section \<open>Ranging visits every entry once\<close>

lemma mset_rangeOrder: "mset (rangeOrder choices xs) = mset xs"
proof (induction choices arbitrary: xs)
  case Nil
  show ?case by simp
next
  case (Cons n choices)
  show ?case
  proof (cases "xs = []")
    case True
    then show ?thesis by simp
  next
    case False
    define i where "i = n mod length xs"
    from False have "i < length xs" by (simp add: i_def)
    then have "xs = take i xs @ xs ! i # drop (Suc i) xs" by (rule id_take_nth_drop)
    then have "mset xs = mset (take i xs @ xs ! i # drop (Suc i) xs)" by simp
    also have "\<dots> = add_mset (xs ! i) (mset (take i xs @ drop (Suc i) xs))" by simp
    also have "\<dots> = add_mset (xs ! i) (mset (rangeOrder choices (take i xs @ drop (Suc i) xs)))"
      by (simp only: Cons.IH)
    finally show ?thesis using False by (simp add: i_def Let_def)
  qed
qed

lemma set_rangeOrder: "set (rangeOrder choices xs) = set xs"
  by (metis mset_rangeOrder set_mset_mset)

lemma distinct_fst_rangeOrder:
  "distinct (map fst xs) \<Longrightarrow> distinct (map fst (rangeOrder choices xs))"
proof -
  assume "distinct (map fst xs)"
  moreover have "mset (map fst (rangeOrder choices xs)) = mset (map fst xs)"
    by (simp add: mset_rangeOrder)
  ultimately show ?thesis by (metis mset_eq_imp_distinct_iff)
qed

lemma map_of_rangeOrder:
  assumes "distinct (map fst xs)"
  shows "map_of (rangeOrder choices xs) = map_of xs"
  using assms distinct_fst_rangeOrder [OF assms, of choices] set_rangeOrder [of choices xs]
  by (simp add: map_of_inject_set)

section \<open>Properties of the schema merger\<close>

lemma keep_iff: "keep nodes rfields \<longleftrightarrow> (\<forall>field \<in> set rfields. field \<in> fst ` set nodes)"
proof (induction rfields)
  case Nil
  show ?case by simp
next
  case (Cons field rfields)
  have "map_of nodes field \<noteq> None \<longleftrightarrow> field \<in> fst ` set nodes"
    by (simp add: map_of_eq_None_iff)
  with Cons.IH show ?case by (cases "map_of nodes field") simp_all
qed

lemma mergeNodes_Inr:
  "mergeNodes m xs = Inr m' \<Longrightarrow> distinct (map fst xs) \<Longrightarrow>
     m' = map_of xs ++ m \<and> (\<forall>k v t. (k, v) \<in> set xs \<and> m k = Some t \<longrightarrow> t = v)"
proof (induction xs arbitrary: m)
  case Nil
  then show ?case by simp
next
  case (Cons p xs)
  obtain k v where p: "p = (k, v)" by (cases p)
  from Cons.prems(2) p have dist: "distinct (map fst xs)" and fresh: "k \<notin> fst ` set xs" by auto
  show ?case
  proof (cases "m k")
    case None
    with Cons.prems(1) p have "mergeNodes (m(k \<mapsto> v)) xs = Inr m'" by simp
    from Cons.IH [OF this dist]
    have eq: "m' = map_of xs ++ m(k \<mapsto> v)"
      and ok: "\<forall>k' v' t. (k', v') \<in> set xs \<and> (m(k \<mapsto> v)) k' = Some t \<longrightarrow> t = v'" by blast+
    have "m' = map_of (p # xs) ++ m"
    proof
      fix c show "m' c = (map_of (p # xs) ++ m) c"
        using eq None p by (auto simp: map_add_def split: option.splits)
    qed
    moreover have "\<forall>k' v' t. (k', v') \<in> set (p # xs) \<and> m k' = Some t \<longrightarrow> t = v'"
      using ok None p fresh by (auto simp: image_iff) (metis fst_conv)+
    ultimately show ?thesis by blast
  next
    case (Some t)
    with Cons.prems(1) p have tv: "t = v" and rest: "mergeNodes m xs = Inr m'"
      by (auto split: if_splits)
    from Cons.IH [OF rest dist]
    have eq: "m' = map_of xs ++ m"
      and ok: "\<forall>k' v' t. (k', v') \<in> set xs \<and> m k' = Some t \<longrightarrow> t = v'" by blast+
    have "m' = map_of (p # xs) ++ m"
    proof
      fix c show "m' c = (map_of (p # xs) ++ m) c"
        using eq Some p by (auto simp: map_add_def split: option.splits)
    qed
    moreover have "\<forall>k' v' t. (k', v') \<in> set (p # xs) \<and> m k' = Some t \<longrightarrow> t = v'"
      using ok Some tv p by auto
    ultimately show ?thesis by blast
  qed
qed

lemma mergeNodes_Inl:
  "mergeNodes m xs = Inl e \<Longrightarrow> distinct (map fst xs) \<Longrightarrow>
     \<exists>k v t. e = SchemaMismatch k \<and> (k, v) \<in> set xs \<and> m k = Some t \<and> t \<noteq> v"
proof (induction xs arbitrary: m)
  case Nil
  then show ?case by simp
next
  case (Cons p xs)
  obtain k v where p: "p = (k, v)" by (cases p)
  from Cons.prems(2) p have dist: "distinct (map fst xs)" and fresh: "k \<notin> fst ` set xs" by auto
  show ?case
  proof (cases "m k")
    case None
    with Cons.prems(1) p have "mergeNodes (m(k \<mapsto> v)) xs = Inl e" by simp
    from Cons.IH [OF this dist] obtain k' v' t where
      e: "e = SchemaMismatch k'" and mem: "(k', v') \<in> set xs"
      and bound: "(m(k \<mapsto> v)) k' = Some t" and ne: "t \<noteq> v'" by blast
    from mem fresh have "k' \<noteq> k" by (metis fst_conv image_eqI)
    with bound have "m k' = Some t" by simp
    with e mem ne show ?thesis by auto
  next
    case (Some t)
    show ?thesis
    proof (cases "t = v")
      case True
      with Cons.prems(1) p Some have "mergeNodes m xs = Inl e" by simp
      from Cons.IH [OF this dist] show ?thesis by auto
    next
      case False
      with Cons.prems(1) p Some have "e = SchemaMismatch k" by simp
      with Some False p show ?thesis by auto
    qed
  qed
qed
lemma getSchemaNodes_distinct: "getSchemaNodes fs f = Inr ns \<Longrightarrow> distinct (map fst ns)"
  by (auto simp: getSchemaNodes_def split: entry.splits dest: scanSchema_distinct)

lemma retained_append:
  "retained fs rf (xs @ ys) = retained fs rf xs @ retained fs rf ys"
  by (simp add: retained_def)

lemma binds_append:
  "binds fs (xs @ ys) c t \<longleftrightarrow> binds fs xs c t \<or> binds fs ys c t"
  by (auto simp: binds_def)

lemma retained_kept:
  "getSchemaNodes fs f = Inr ns \<Longrightarrow> keep ns rf \<Longrightarrow> retained fs rf [f] = [f]"
  by (simp add: retained_def)

lemma retained_dropped:
  "getSchemaNodes fs f = Inr ns \<Longrightarrow> \<not> keep ns rf \<Longrightarrow> retained fs rf [f] = []"
  by (simp add: retained_def)

lemma binds_single:
  "getSchemaNodes fs f = Inr ns \<Longrightarrow> binds fs [f] c t \<longleftrightarrow> map_of ns c = Some t"
  by (simp add: binds_def fileNodes_def)

lemma merge_step_Inr:
  assumes ex: "getSchemaNodes fs f = Inr ns" and kept: "keep ns rf"
      and step: "mergeNodes m (rangeOrder ch ns) = Inr m1"
      and inv: "\<forall>c t. m c = Some t \<longleftrightarrow> binds fs (retained fs rf seen) c t"
  shows "\<forall>c t. m1 c = Some t \<longleftrightarrow> binds fs (retained fs rf (seen @ [f])) c t"
proof (intro allI)
  fix c t
  from ex have dist: "distinct (map fst ns)" by (rule getSchemaNodes_distinct)
  then have d2: "distinct (map fst (rangeOrder ch ns))" by (rule distinct_fst_rangeOrder)
  from mergeNodes_Inr [OF step d2]
  have m1: "m1 = map_of ns ++ m"
    and ok: "\<forall>k v t. (k, v) \<in> set ns \<and> m k = Some t \<longrightarrow> t = v"
    by (simp_all add: map_of_rangeOrder [OF dist] set_rangeOrder)
  have agree: "m c = Some t" if "map_of ns c = Some t" "m c \<noteq> None" for t
  proof -
    from that(2) obtain t' where t': "m c = Some t'" by auto
    from that(1) have "(c, t) \<in> set ns" by (rule map_of_SomeD)
    with ok t' have "t' = t" by blast
    with t' show ?thesis by simp
  qed
  have "m1 c = Some t \<longleftrightarrow> m c = Some t \<or> map_of ns c = Some t"
    unfolding m1 using agree by (auto simp: map_add_def split: option.splits)
  also have "\<dots> \<longleftrightarrow> binds fs (retained fs rf seen) c t \<or> binds fs [f] c t"
    using inv binds_single [OF ex] by simp
  also have "\<dots> \<longleftrightarrow> binds fs (retained fs rf (seen @ [f])) c t"
    by (simp add: retained_append binds_append retained_kept [OF ex kept])
  finally show "m1 c = Some t \<longleftrightarrow> binds fs (retained fs rf (seen @ [f])) c t" .
qed

lemma merge_step_Inl:
  assumes ex: "getSchemaNodes fs f = Inr ns" and kept: "keep ns rf"
      and step: "mergeNodes m (rangeOrder ch ns) = Inl e"
      and inv: "\<forall>c t. m c = Some t \<longleftrightarrow> binds fs (retained fs rf seen) c t"
  shows "\<exists>k t1 t2. e = SchemaMismatch k \<and> t1 \<noteq> t2 \<and>
           binds fs (retained fs rf (seen @ [f])) k t1 \<and>
           binds fs (retained fs rf (seen @ [f])) k t2"
proof -
  from ex have dist: "distinct (map fst ns)" by (rule getSchemaNodes_distinct)
  then have d2: "distinct (map fst (rangeOrder ch ns))" by (rule distinct_fst_rangeOrder)
  from mergeNodes_Inl [OF step d2] obtain k v t where
    e: "e = SchemaMismatch k" and mem: "(k, v) \<in> set ns" and bound: "m k = Some t" and ne: "t \<noteq> v"
    by (auto simp: set_rangeOrder)
  from mem dist have "map_of ns k = Some v" by simp
  then have "binds fs [f] k v" by (simp add: binds_single [OF ex])
  then have "binds fs (retained fs rf (seen @ [f])) k v"
    by (simp add: retained_append binds_append retained_kept [OF ex kept])
  moreover from bound inv have "binds fs (retained fs rf (seen @ [f])) k t"
    by (simp add: retained_append binds_append)
  ultimately show ?thesis using e ne by blast
qed

lemma scanFiles_Inr:
  "scanFiles env fs rf i m fsch files = Inr (m', fsch') \<Longrightarrow>
   (\<forall>c t. m c = Some t \<longleftrightarrow> binds fs (retained fs rf seen) c t) \<Longrightarrow>
   (\<forall>c t. m' c = Some t \<longleftrightarrow> binds fs (retained fs rf (seen @ files)) c t)"
proof (induction files arbitrary: i m fsch seen)
  case Nil
  then show ?case by simp
next
  case (Cons f files)
  from Cons.prems(1) obtain ns where ex: "getSchemaNodes fs f = Inr ns"
    by (auto split: sum.splits)
  show ?case
  proof (cases "keep ns rf")
    case False
    with Cons.prems(1) ex
    have rest: "scanFiles env fs rf (Suc i) m fsch files = Inr (m', fsch')" by simp
    from Cons.prems(2)
    have "\<forall>c t. m c = Some t \<longleftrightarrow> binds fs (retained fs rf (seen @ [f])) c t"
      by (simp add: retained_append retained_dropped [OF ex False])
    from Cons.IH [OF rest this] show ?thesis by simp
  next
    case True
    with Cons.prems(1) ex obtain m1 where
      step: "mergeNodes m (rangeOrder (nodes_order env i) ns) = Inr m1"
      and rest: "scanFiles env fs rf (Suc i) m1 (AList.update f ns fsch) files = Inr (m', fsch')"
      by (auto split: sum.splits)
    from Cons.IH [OF rest merge_step_Inr [OF ex True step Cons.prems(2)]]
    show ?thesis by simp
  qed
qed

lemma scanFiles_Inl:
  "scanFiles env fs rf i m fsch files = Inl e \<Longrightarrow>
   (\<forall>c t. m c = Some t \<longleftrightarrow> binds fs (retained fs rf seen) c t) \<Longrightarrow>
   (\<forall>file \<in> set files. \<exists>ns. getSchemaNodes fs file = Inr ns) \<Longrightarrow>
   \<exists>k t1 t2. e = SchemaMismatch k \<and> t1 \<noteq> t2 \<and>
      binds fs (retained fs rf (seen @ files)) k t1 \<and>
      binds fs (retained fs rf (seen @ files)) k t2"
proof (induction files arbitrary: i m fsch seen)
  case Nil
  then show ?case by simp
next
  case (Cons f files)
  from Cons.prems(3) obtain ns where ex: "getSchemaNodes fs f = Inr ns" by auto
  from Cons.prems(3) have others: "\<forall>file \<in> set files. \<exists>ns. getSchemaNodes fs file = Inr ns"
    by simp
  show ?case
  proof (cases "keep ns rf")
    case False
    with Cons.prems(1) ex
    have rest: "scanFiles env fs rf (Suc i) m fsch files = Inl e" by simp
    from Cons.prems(2)
    have "\<forall>c t. m c = Some t \<longleftrightarrow> binds fs (retained fs rf (seen @ [f])) c t"
      by (simp add: retained_append retained_dropped [OF ex False])
    from Cons.IH [OF rest this others] show ?thesis by simp
  next
    case True
    show ?thesis
    proof (cases "mergeNodes m (rangeOrder (nodes_order env i) ns)")
      case (Inl e')
      with Cons.prems(1) ex True have "e' = e" by simp
      with Inl have step: "mergeNodes m (rangeOrder (nodes_order env i) ns) = Inl e" by simp
      from merge_step_Inl [OF ex True step Cons.prems(2)] obtain k t1 t2 where
        "e = SchemaMismatch k" "t1 \<noteq> t2"
        "binds fs (retained fs rf (seen @ [f])) k t1" "binds fs (retained fs rf (seen @ [f])) k t2"
        by blast
      then have "e = SchemaMismatch k \<and> t1 \<noteq> t2 \<and>
        binds fs (retained fs rf (seen @ f # files)) k t1 \<and>
        binds fs (retained fs rf (seen @ f # files)) k t2"
        using retained_append [of fs rf "seen @ [f]" files]
        by (simp add: binds_append)
      then show ?thesis by blast
    next
      case (Inr m1)
      with Cons.prems(1) ex True
      have rest: "scanFiles env fs rf (Suc i) m1 (AList.update f ns fsch) files = Inl e" by simp
      from Cons.IH [OF rest merge_step_Inr [OF ex True Inr Cons.prems(2)] others]
      show ?thesis by simp
    qed
  qed
qed
lemmas run_defs = merge_def getSchemaNodes_def mapper_defs col_def group_def quiet_def
  copyFromFile_def Write_def Read_def disk_def

text \<open>
  Claim C3, as the code has it. When every file of the list is extracted: if two retained
  files have some column with different nodes, \<^verbatim>\<open>merge\<close> ends with the schema-mismatch
  error on a column \<open>k\<close> that two retained files bind differently, the error carrying the
  column name only, and the file system is left as it was (no output is created, no node is
  chosen); if no column is bound differently, the schema loop succeeds and the merged
  schema binds exactly the columns of the retained files, each to its one node.
\<close>

theorem cross_file_mismatch:
  assumes extracted: "\<forall>file \<in> set files. \<exists>ns. getSchemaNodes fs file = Inr ns"
  shows "((\<exists>c t1 t2. t1 \<noteq> t2 \<and> binds fs (retained fs rf files) c t1 \<and>
              binds fs (retained fs rf files) c t2) \<longrightarrow>
          (\<exists>k t1 t2. merge env fs outfile rf files = (Inl (SchemaMismatch k), fs) \<and> t1 \<noteq> t2 \<and>
             binds fs (retained fs rf files) k t1 \<and> binds fs (retained fs rf files) k t2)) \<and>
         (\<not> (\<exists>c t1 t2. t1 \<noteq> t2 \<and> binds fs (retained fs rf files) c t1 \<and>
              binds fs (retained fs rf files) c t2) \<longrightarrow>
          (\<exists>m fsch. scanFiles env fs rf 0 Map.empty [] files = Inr (m, fsch) \<and>
             (\<forall>c t. m c = Some t \<longleftrightarrow> binds fs (retained fs rf files) c t)))"
proof -
  have start: "\<forall>c t. Map.empty c = Some t \<longleftrightarrow> binds fs (retained fs rf []) c t"
    by (simp add: retained_def binds_def)
  show ?thesis
  proof (cases "scanFiles env fs rf 0 Map.empty [] files")
    case (Inl e)
    from scanFiles_Inl [OF Inl start extracted] obtain k t1 t2 where
      e: "e = SchemaMismatch k" and ne: "t1 \<noteq> t2"
      and b1: "binds fs (retained fs rf files) k t1"
      and b2: "binds fs (retained fs rf files) k t2" by auto
    from Inl e have "merge env fs outfile rf files = (Inl (SchemaMismatch k), fs)"
      by (simp add: merge_def)
    with ne b1 b2 show ?thesis by blast
  next
    case (Inr res)
    obtain m fsch where res: "res = (m, fsch)" by (cases res)
    from Inr res have ok: "scanFiles env fs rf 0 Map.empty [] files = Inr (m, fsch)" by simp
    from scanFiles_Inr [OF ok start]
    have inv: "\<forall>c t. m c = Some t \<longleftrightarrow> binds fs (retained fs rf files) c t" by simp
    then have "\<not> (\<exists>c t1 t2. t1 \<noteq> t2 \<and> binds fs (retained fs rf files) c t1 \<and>
              binds fs (retained fs rf files) c t2)"
      by (metis option.inject)
    with ok inv show ?thesis by blast
  qed
qed

theorem cross_file_mismatch_witness:
  "(\<exists>k. merge quiet disk ''out.parquet'' [] [''in/a.parquet'', ''in/s.parquet''] =
      (Inl (SchemaMismatch k), disk)) \<and>
   (\<exists>m fsch. scanFiles quiet disk [] 0 Map.empty [] [''in/a.parquet'', ''in/b.parquet''] =
      Inr (m, fsch) \<and> m ''x'' = Some (Optional (IntNode 64)))"
proof -
  have ex1: "\<forall>file \<in> set [''in/a.parquet'', ''in/s.parquet'']. \<exists>ns. getSchemaNodes disk file = Inr ns"
    and ex2: "\<forall>file \<in> set [''in/a.parquet'', ''in/b.parquet'']. \<exists>ns. getSchemaNodes disk file = Inr ns"
    by (simp_all add: run_defs)
  have b1: "binds disk (retained disk [] [''in/a.parquet'', ''in/s.parquet'']) ''x''
      (Optional (IntNode 64))"
    and b2: "binds disk (retained disk [] [''in/a.parquet'', ''in/s.parquet'']) ''x''
      (Optional String)"
    by (simp_all add: binds_def retained_def fileNodes_def run_defs)
  have "Optional (IntNode 64) \<noteq> Optional String" by simp
  with b1 b2 have conflict:
    "\<exists>c t1 t2. t1 \<noteq> t2 \<and> binds disk (retained disk [] [''in/a.parquet'', ''in/s.parquet'']) c t1 \<and>
       binds disk (retained disk [] [''in/a.parquet'', ''in/s.parquet'']) c t2"
    by blast
  have agree:
    "\<not> (\<exists>c t1 t2. t1 \<noteq> t2 \<and> binds disk (retained disk [] [''in/a.parquet'', ''in/b.parquet'']) c t1 \<and>
       binds disk (retained disk [] [''in/a.parquet'', ''in/b.parquet'']) c t2)"
    by (auto simp: binds_def retained_def fileNodes_def run_defs split: if_splits)
  have b3: "binds disk (retained disk [] [''in/a.parquet'', ''in/b.parquet'']) ''x''
      (Optional (IntNode 64))"
    by (simp add: binds_def retained_def fileNodes_def run_defs)
  from cross_file_mismatch [OF ex1, of "[]" quiet "''out.parquet''"] conflict
  have first: "\<exists>k. merge quiet disk ''out.parquet'' [] [''in/a.parquet'', ''in/s.parquet''] =
      (Inl (SchemaMismatch k), disk)" by blast
  from cross_file_mismatch [OF ex2, of "[]" quiet "''out.parquet''"] agree b3
  have "\<exists>m fsch. scanFiles quiet disk [] 0 Map.empty [] [''in/a.parquet'', ''in/b.parquet''] =
      Inr (m, fsch) \<and> m ''x'' = Some (Optional (IntNode 64))" by blast
  with first show ?thesis by blast
qed

text \<open>
  Claim C3 as stated fails: the error names the column and nothing else. Against the INT64
  column \<open>x\<close> of \<^verbatim>\<open>in/a.parquet\<close>, a string column \<open>x\<close> and a boolean column \<open>x\<close> end
  the merge with the same error value, which therefore does not tell the two conflicting
  types.
\<close>

theorem mismatch_error_has_no_types:
  "fileNodes disk ''in/a.parquet'' = [(''x'', Optional (IntNode 64))] \<and>
   fileNodes disk ''in/s.parquet'' = [(''x'', Optional String)] \<and>
   fileNodes disk ''in/f.parquet'' = [(''x'', Optional (Leaf BooleanType))] \<and>
   merge quiet disk ''out.parquet'' [] [''in/a.parquet'', ''in/s.parquet''] =
     (Inl (SchemaMismatch ''x''), disk) \<and>
   merge quiet disk ''out.parquet'' [] [''in/a.parquet'', ''in/f.parquet''] =
     (Inl (SchemaMismatch ''x''), disk)"
  by (simp add: fileNodes_def run_defs)
section \<open>Properties of the orchestrator\<close>

lemma rangeOrder_Nil: "rangeOrder choices [] = []"
  by (cases choices) simp_all

lemma scanFiles_all_excluded:
  "\<forall>file \<in> set files. \<exists>ns. getSchemaNodes fs file = Inr ns \<and> \<not> keep ns rf \<Longrightarrow>
   scanFiles env fs rf i m fsch files = Inr (m, fsch)"
  by (induction files arbitrary: i) auto

lemma parquetFiles_none:
  "\<forall>(name, isDir) \<in> set entries. isDir \<or> \<not> HasSuffix name ''.parquet'' \<Longrightarrow>
   parquetFiles dir entries = []"
  by (induction entries) auto

text \<open>
  Claim C10, as the code has it. When no file is retained, because every candidate is
  extracted and excluded by the required-columns test (or the list is empty), the schema
  loop ends with the empty schema, nothing is copied, and what the run does is decided by
  the three calls that create, configure and close the writer alone: it ends normally,
  leaving at the output path a finalized file with the empty schema and no records, exactly
  when \<^verbatim>\<open>os.Create\<close>, \<^verbatim>\<open>parquet.NewWriterConfig\<close> and \<^verbatim>\<open>writer.Close\<close> succeed; a failure or
  a panic of one of them aborts the run and, once the file is created, leaves an unfinished
  file at the output path. A source directory that lists no parquet file makes \<^verbatim>\<open>main\<close> run
  this merge of the empty list.
\<close>

theorem merge_of_nothing:
  "((\<forall>file \<in> set files. \<exists>ns. getSchemaNodes fs file = Inr ns \<and> \<not> keep ns rf) \<longrightarrow>
      merge env fs outfile rf files =
        (case create_error env of
           Some err \<Rightarrow> (Inl (External err), fs)
         | None \<Rightarrow>
            (case config_error env of
               Some err \<Rightarrow> (Inl (WriterConfig err), fs(outfile := NotParquet))
             | None \<Rightarrow>
                (case close_panic env of
                   Some v \<Rightarrow> (Inl (Panic v), fs(outfile := NotParquet))
                 | None \<Rightarrow>
                    (case close_error env of
                       Some err \<Rightarrow> (Inl (ClosingWriter err), fs(outfile := NotParquet))
                     | None \<Rightarrow> (Inr (), fs(outfile := Merged Map.empty []))))))) \<and>
   ((\<forall>file \<in> set files. \<exists>ns. getSchemaNodes fs file = Inr ns \<and> \<not> keep ns rf) \<longrightarrow>
      (fst (merge env fs outfile rf files) = Inr () \<longleftrightarrow>
         create_error env = None \<and> config_error env = None \<and>
         close_panic env = None \<and> close_error env = None)) \<and>
   (sourcedir \<noteq> [] \<and> read_dir env sourcedir = Some entries \<and>
    (\<forall>(name, isDir) \<in> set entries. isDir \<or> \<not> HasSuffix name ''.parquet'') \<longrightarrow>
      main env fs sourcedir outflag reqflag =
        merge env fs (if outflag = [] then ''merged.parquet'' else outflag)
          (Split reqflag CHR '','') [])"
proof (intro conjI impI)
  assume "\<forall>file \<in> set files. \<exists>ns. getSchemaNodes fs file = Inr ns \<and> \<not> keep ns rf"
  then have "scanFiles env fs rf 0 Map.empty [] files = Inr (Map.empty, [])"
    by (rule scanFiles_all_excluded)
  then show "merge env fs outfile rf files =
        (case create_error env of
           Some err \<Rightarrow> (Inl (External err), fs)
         | None \<Rightarrow>
            (case config_error env of
               Some err \<Rightarrow> (Inl (WriterConfig err), fs(outfile := NotParquet))
             | None \<Rightarrow>
                (case close_panic env of
                   Some v \<Rightarrow> (Inl (Panic v), fs(outfile := NotParquet))
                 | None \<Rightarrow>
                    (case close_error env of
                       Some err \<Rightarrow> (Inl (ClosingWriter err), fs(outfile := NotParquet))
                     | None \<Rightarrow> (Inr (), fs(outfile := Merged Map.empty []))))))"
    by (simp add: merge_def rangeOrder_Nil split: option.splits)
next
  assume "\<forall>file \<in> set files. \<exists>ns. getSchemaNodes fs file = Inr ns \<and> \<not> keep ns rf"
  then have "scanFiles env fs rf 0 Map.empty [] files = Inr (Map.empty, [])"
    by (rule scanFiles_all_excluded)
  then show "fst (merge env fs outfile rf files) = Inr () \<longleftrightarrow>
         create_error env = None \<and> config_error env = None \<and>
         close_panic env = None \<and> close_error env = None"
    by (auto simp: merge_def rangeOrder_Nil Let_def split: option.splits)
next
  assume a: "sourcedir \<noteq> [] \<and> read_dir env sourcedir = Some entries \<and>
          (\<forall>(name, isDir) \<in> set entries. isDir \<or> \<not> HasSuffix name ''.parquet'')"
  then have "findFiles env sourcedir = Inr []"
    by (simp add: findFiles_def parquetFiles_none)
  then show "main env fs sourcedir outflag reqflag =
        merge env fs (if outflag = [] then ''merged.parquet'' else outflag)
          (Split reqflag CHR '','') []"
    using a by (simp add: main_def Let_def)
qed

theorem merge_of_nothing_witness:
  "merge quiet disk ''out.parquet'' [''y''] [''in/a.parquet'', ''in/b.parquet''] =
     (Inr (), disk(''out.parquet'' := Merged Map.empty [])) \<and>
   main (quiet\<lparr>read_dir := (\<lambda>dir. Some [(''notes.txt'', False), (''old.parquet'', True)])\<rparr>)
     disk ''in'' [] [] = (Inr (), disk(''merged.parquet'' := Merged Map.empty []))"
proof -
  let ?env = "quiet\<lparr>read_dir := (\<lambda>dir. Some [(''notes.txt'', False), (''old.parquet'', True)])\<rparr>"
  have excluded: "\<forall>file \<in> set [''in/a.parquet'', ''in/b.parquet''].
      \<exists>ns. getSchemaNodes disk file = Inr ns \<and> \<not> keep ns [''y'']"
    by (simp add: getSchemaNodes_def mapper_defs col_def group_def disk_def)
  have nothing: "\<forall>file \<in> set ([] :: string list).
      \<exists>ns. getSchemaNodes disk file = Inr ns \<and> \<not> keep ns (Split [] CHR '','')"
    by simp
  have none: "''in'' \<noteq> [] \<and>
      read_dir ?env ''in'' = Some [(''notes.txt'', False), (''old.parquet'', True)] \<and>
      (\<forall>(name, isDir) \<in> set [(''notes.txt'', False), (''old.parquet'', True)].
         isDir \<or> \<not> HasSuffix name ''.parquet'')"
    by (simp add: HasSuffix_def)
  from merge_of_nothing [of "[''in/a.parquet'', ''in/b.parquet'']" disk "[''y'']" quiet
      "''out.parquet''" "''in''" "[]" "[]" "[]"] excluded
  have first: "merge quiet disk ''out.parquet'' [''y''] [''in/a.parquet'', ''in/b.parquet''] =
     (Inr (), disk(''out.parquet'' := Merged Map.empty []))"
    by (simp add: quiet_def)
  from merge_of_nothing [of "[]" disk "Split [] CHR '',''" ?env "''merged.parquet''" "''in''"
      "[(''notes.txt'', False), (''old.parquet'', True)]" "[]" "[]"] nothing none
  have "main ?env disk ''in'' [] [] = (Inr (), disk(''merged.parquet'' := Merged Map.empty []))"
    by (simp add: quiet_def)
  with first show ?thesis by simp
qed

text \<open>
  Claim C10 as stated fails: with nothing retained the run still depends on
  \<^verbatim>\<open>writer.Close()\<close>. Where closing the writer bound to the empty schema panics, or returns
  an error, the merge aborts and leaves an unfinished file at the output path, not a
  finalized one.
\<close>

theorem merge_of_nothing_may_abort:
  "merge (quiet\<lparr>close_panic := Some ''empty schema''\<rparr>) disk ''out.parquet'' [''y'']
     [''in/a.parquet'', ''in/b.parquet''] =
     (Inl (Panic ''empty schema''), disk(''out.parquet'' := NotParquet)) \<and>
   merge (quiet\<lparr>close_error := Some ''empty schema''\<rparr>) disk ''out.parquet'' [''y'']
     [''in/a.parquet'', ''in/b.parquet''] =
     (Inl (ClosingWriter ''empty schema''), disk(''out.parquet'' := NotParquet)) \<and>
   merge (quiet\<lparr>close_panic := Some ''empty schema''\<rparr>) disk ''out.parquet'' [] [] =
     (Inl (Panic ''empty schema''), disk(''out.parquet'' := NotParquet))"
  by (simp add: run_defs)

lemma copyRows_Inr:
  "copyRows env schema rs w = (Inr (), w') \<Longrightarrow>
   wrows w' = wrows w @ map (Read schema) (rowsOf rs) \<and> wschema w' = wschema w"
proof (induction rs arbitrary: w)
  case Nil
  then show ?case by simp
next
  case (Cons r rs)
  show ?case
  proof (cases r)
    case (Inl err)
    with Cons.prems show ?thesis by simp
  next
    case (Inr stored)
    let ?w = "w\<lparr>wrows := wrows w @ [Read schema stored], wcalls := Suc (wcalls w)\<rparr>"
    from Cons.prems Inr have one: "write_result env (wcalls w) = (1, None)"
      by (cases "write_result env (wcalls w)")
        (auto simp: Write_def Let_def split: option.splits if_splits)
    with Cons.prems Inr have "copyRows env schema rs ?w = (Inr (), w')"
      by (simp add: Write_def)
    from Cons.IH [OF this] show ?thesis using Inr by simp
  qed
qed

lemma copyFiles_Inr:
  "copyFiles env fs order w = (Inr (), w') \<Longrightarrow>
   wrows w' = wrows w @ concat (map (\<lambda>(f, ns). map (Read ns) (storedRows fs f)) order) \<and>
   wschema w' = wschema w \<and>
   (\<forall>(f, ns) \<in> set order. \<exists>ds rs. fs f = Parquet ds rs)"
proof (induction order arbitrary: w)
  case Nil
  then show ?case by simp
next
  case (Cons p order)
  obtain f ns where p: "p = (f, ns)" by (cases p)
  from Cons.prems p obtain ds rs where stored: "fs f = Parquet ds rs"
    by (cases "fs f") (auto simp: copyFromFile_def)
  from Cons.prems p stored obtain w1 where
    one: "copyRows env ns rs w = (Inr (), w1)" and rest: "copyFiles env fs order w1 = (Inr (), w')"
    by (auto simp: copyFromFile_def split: prod.splits sum.splits option.splits)
  from copyRows_Inr [OF one] stored
  have "wrows w1 = wrows w @ map (Read ns) (storedRows fs f)" and "wschema w1 = wschema w"
    by (simp_all add: storedRows_def)
  with Cons.IH [OF rest] p stored show ?case by auto
qed

lemma scanFiles_fileSchema:
  "scanFiles env fs rf i m fsch files = Inr (m', fsch') \<Longrightarrow>
   distinct (map fst fsch) \<Longrightarrow>
   (\<forall>f ns. map_of fsch f = Some ns \<longrightarrow> fileNodes fs f = ns) \<Longrightarrow>
   distinct (map fst fsch') \<and>
   (\<forall>f ns. map_of fsch' f = Some ns \<longrightarrow> fileNodes fs f = ns) \<and>
   fst ` set fsch' = fst ` set fsch \<union> set (retained fs rf files)"
proof (induction files arbitrary: i m fsch)
  case Nil
  then show ?case by (simp add: retained_def)
next
  case (Cons f files)
  from Cons.prems(1) obtain ns where ex: "getSchemaNodes fs f = Inr ns"
    by (auto split: sum.splits)
  have split: "retained fs rf (f # files) = retained fs rf [f] @ retained fs rf files"
    using retained_append [of fs rf "[f]" files] by simp
  show ?case
  proof (cases "keep ns rf")
    case False
    with Cons.prems(1) ex
    have rest: "scanFiles env fs rf (Suc i) m fsch files = Inr (m', fsch')" by simp
    from Cons.IH [OF rest Cons.prems(2,3)] show ?thesis
      by (simp add: split retained_dropped [OF ex False])
  next
    case True
    with Cons.prems(1) ex obtain m1 where
      rest: "scanFiles env fs rf (Suc i) m1 (AList.update f ns fsch) files = Inr (m', fsch')"
      by (auto split: sum.splits)
    have d: "distinct (map fst (AList.update f ns fsch))"
      using Cons.prems(2) by (rule distinct_update)
    have v: "\<forall>g ns'. map_of (AList.update f ns fsch) g = Some ns' \<longrightarrow> fileNodes fs g = ns'"
      using Cons.prems(3) ex by (auto simp: update_conv' fileNodes_def)
    from Cons.IH [OF rest d v] show ?thesis
      by (auto simp: split retained_kept [OF ex True] dom_update)
  qed
qed

lemma mset_distinct_remdups: "distinct xs \<Longrightarrow> set xs = set ys \<Longrightarrow> mset xs = mset (remdups ys)"
  by (metis distinct_remdups set_remdups set_eq_iff_mset_eq_distinct)

lemma merge_Inr:
  assumes "merge env fs outfile rf files = (Inr (), fs')"
  shows "\<exists>m fsch w.
     scanFiles env fs rf 0 Map.empty [] files = Inr (m, fsch) \<and>
     copyFiles env (fs(outfile := NotParquet)) (rangeOrder (files_order env) fsch)
       \<lparr>wschema = m, wrows = [], wcalls = 0\<rparr> = (Inr (), w) \<and>
     fs' = fs(outfile := Merged (wschema w) (wrows w))"
  using assms
  by (auto simp: merge_def Let_def split: sum.splits option.splits prod.splits)

text \<open>What a merge that ends normally leaves at the output path.\<close>

lemma merge_output:
  assumes ok: "merge env fs outfile rf files = (Inr (), fs')"
  shows "\<exists>m order.
     fs' = fs(outfile :=
       Merged m (concat (map (\<lambda>f. map (Read (fileNodes fs f)) (storedRows fs f)) order))) \<and>
     mset order = mset (remdups (retained fs rf files)) \<and>
     (\<forall>c t. m c = Some t \<longleftrightarrow> binds fs (retained fs rf files) c t)"
proof -
  from merge_Inr [OF ok] obtain m fsch w where
    scan: "scanFiles env fs rf 0 Map.empty [] files = Inr (m, fsch)"
    and copy: "copyFiles env (fs(outfile := NotParquet)) (rangeOrder (files_order env) fsch)
       \<lparr>wschema = m, wrows = [], wcalls = 0\<rparr> = (Inr (), w)"
    and fs': "fs' = fs(outfile := Merged (wschema w) (wrows w))" by blast
  let ?fs1 = "fs(outfile := NotParquet)"
  let ?visit = "rangeOrder (files_order env) fsch"
  let ?order = "map fst ?visit"
  from scanFiles_fileSchema [OF scan]
  have dist: "distinct (map fst fsch)"
    and vals: "\<forall>f ns. map_of fsch f = Some ns \<longrightarrow> fileNodes fs f = ns"
    and keys: "fst ` set fsch = set (retained fs rf files)" by simp_all
  from copyFiles_Inr [OF copy]
  have rows: "wrows w = concat (map (\<lambda>(f, ns). map (Read ns) (storedRows ?fs1 f)) ?visit)"
    and sch: "wschema w = m"
    and parquet: "\<forall>(f, ns) \<in> set ?visit. \<exists>ds rs. ?fs1 f = Parquet ds rs" by simp_all
  have each: "(\<lambda>(f, ns). map (Read ns) (storedRows ?fs1 f)) p =
      (\<lambda>f. map (Read (fileNodes fs f)) (storedRows fs f)) (fst p)" if "p \<in> set ?visit" for p
  proof -
    obtain f ns where p: "p = (f, ns)" by (cases p)
    from that p have mem: "(f, ns) \<in> set fsch" by (simp add: set_rangeOrder)
    with dist have "map_of fsch f = Some ns" by simp
    with vals have nodes: "fileNodes fs f = ns" by blast
    from parquet that p obtain ds rs where "?fs1 f = Parquet ds rs" by blast
    then have "f \<noteq> outfile" by (auto split: if_splits)
    then have "storedRows ?fs1 f = storedRows fs f" by (simp add: storedRows_def)
    with nodes p show ?thesis by simp
  qed
  have "map (\<lambda>(f, ns). map (Read ns) (storedRows ?fs1 f)) ?visit =
        map (\<lambda>f. map (Read (fileNodes fs f)) (storedRows fs f)) ?order"
    using each by (simp add: comp_def)
  with rows have rows': "wrows w =
      concat (map (\<lambda>f. map (Read (fileNodes fs f)) (storedRows fs f)) ?order)" by simp
  have "distinct ?order" using dist by (rule distinct_fst_rangeOrder)
  moreover have "set ?order = set (remdups (retained fs rf files))"
    using keys by (simp add: set_rangeOrder)
  then have "set ?order = set (retained fs rf files)" by simp
  ultimately have perm: "mset ?order = mset (remdups (retained fs rf files))"
    by (rule mset_distinct_remdups)
  have start: "\<forall>c t. Map.empty c = Some t \<longleftrightarrow> binds fs (retained fs rf []) c t"
    by (simp add: retained_def binds_def)
  from scanFiles_Inr [OF scan start]
  have inv: "\<forall>c t. m c = Some t \<longleftrightarrow> binds fs (retained fs rf files) c t" by simp
  from fs' sch rows' have "fs' = fs(outfile :=
       Merged m (concat (map (\<lambda>f. map (Read (fileNodes fs f)) (storedRows fs f)) ?order)))"
    by simp
  with perm inv show ?thesis
    by (intro exI [of _ m] exI [of _ ?order] conjI)
qed
lemma sum_list_mset_cong:
  fixes h :: "'a \<Rightarrow> nat"
  assumes "mset xs = mset ys"
  shows "sum_list (map h xs) = sum_list (map h ys)"
proof -
  have "sum_list (map h xs) = sum_mset (image_mset h (mset xs))"
    by (simp add: sum_mset_sum_list [symmetric])
  also have "\<dots> = sum_mset (image_mset h (mset ys))" by (simp only: assms)
  also have "\<dots> = sum_list (map h ys)" by (simp add: sum_mset_sum_list [symmetric])
  finally show ?thesis .
qed

text \<open>
  Claim C4. A merge that ends normally leaves at the output path a file whose records are
  the stored rows of the retained files, file after file in the order the copy loop visited
  them, each retained file once: the number of records is the sum of the numbers of rows
  of the retained files.
\<close>

theorem row_count_conservation:
  assumes ok: "merge env fs outfile rf files = (Inr (), fs')"
  shows "\<exists>schema recs order.
     fs' outfile = Merged schema recs \<and>
     mset order = mset (remdups (retained fs rf files)) \<and>
     recs = concat (map (\<lambda>file. map (Read (fileNodes fs file)) (storedRows fs file)) order) \<and>
     length recs = (\<Sum>file \<leftarrow> remdups (retained fs rf files). length (storedRows fs file))"
proof -
  from merge_output [OF ok] obtain m order where
    fs': "fs' = fs(outfile :=
       Merged m (concat (map (\<lambda>f. map (Read (fileNodes fs f)) (storedRows fs f)) order)))"
    and perm: "mset order = mset (remdups (retained fs rf files))" by blast
  let ?recs = "concat (map (\<lambda>f. map (Read (fileNodes fs f)) (storedRows fs f)) order)"
  have "length ?recs = (\<Sum>file \<leftarrow> order. length (storedRows fs file))"
    by (simp add: length_concat comp_def)
  also have "\<dots> = (\<Sum>file \<leftarrow> remdups (retained fs rf files). length (storedRows fs file))"
    using perm by (rule sum_list_mset_cong)
  finally have len: "length ?recs =
      (\<Sum>file \<leftarrow> remdups (retained fs rf files). length (storedRows fs file))" .
  from fs' have "fs' outfile = Merged m ?recs" by simp
  with perm len show ?thesis by blast
qed

theorem row_count_conservation_witness:
  "\<exists>schema recs.
     snd (merge quiet disk ''out.parquet'' [] [''in/a.parquet'', ''in/b.parquet'', ''in/a.parquet''])
       ''out.parquet'' = Merged schema recs \<and>
     length recs = 2"
proof -
  let ?files = "[''in/a.parquet'', ''in/b.parquet'', ''in/a.parquet'']"
  have "fst (merge quiet disk ''out.parquet'' [] ?files) = Inr ()"
    by (simp add: run_defs)
  then have ok: "merge quiet disk ''out.parquet'' [] ?files =
      (Inr (), snd (merge quiet disk ''out.parquet'' [] ?files))"
    by (metis prod.collapse)
  have "(\<Sum>file \<leftarrow> remdups (retained disk [] ?files). length (storedRows disk file)) = 2"
    by (simp add: retained_def storedRows_def getSchemaNodes_def mapper_defs col_def group_def
        disk_def)
  with row_count_conservation [OF ok] show ?thesis by auto
qed

lemma schemaTypeToNode_Optional: "schemaTypeToNode ty logical = Inr n \<Longrightarrow> \<exists>k. n = Optional k"
  by (auto simp: mapper_defs split: if_splits option.splits)

lemma scanSchema_Optional:
  "scanSchema nodes ds = Inr nodes' \<Longrightarrow> (\<forall>(c, t) \<in> set nodes. \<exists>k. t = Optional k) \<Longrightarrow>
   (\<forall>(c, t) \<in> set nodes'. \<exists>k. t = Optional k)"
proof (induction ds arbitrary: nodes)
  case Nil
  then show ?case by simp
next
  case (Cons d ds)
  show ?case
  proof (cases "Type d")
    case None
    with Cons show ?thesis by simp
  next
    case (Some ty)
    with Cons.prems obtain stype where
      st: "schemaTypeToNode ty (case LogicalType d of None \<Rightarrow> [] | Some l \<Rightarrow> l) = Inr stype"
      by (auto split: sum.splits simp: Let_def)
    then obtain k where k: "stype = Optional k" by (auto dest: schemaTypeToNode_Optional)
    show ?thesis
    proof (cases "map_of nodes (Name d)")
      case None
      from Cons.prems(2) k
      have "\<forall>(c, t) \<in> set (nodes @ [(Name d, stype)]). \<exists>k. t = Optional k" by auto
      moreover from Cons.prems(1) Some st None
      have "scanSchema (nodes @ [(Name d, stype)]) ds = Inr nodes'" by (simp add: Let_def)
      ultimately show ?thesis by (rule Cons.IH [rotated])
    next
      case (Some cur)
      with Cons.prems(1) \<open>Type d = Some ty\<close> st
      have "scanSchema nodes ds = Inr nodes'" by (simp add: Let_def split: if_splits)
      then show ?thesis using Cons.prems(2) by (rule Cons.IH)
    qed
  qed
qed

lemma fileNodes_Optional: "map_of (fileNodes fs f) c = Some t \<Longrightarrow> \<exists>k. t = Optional k"
proof -
  assume a: "map_of (fileNodes fs f) c = Some t"
  then obtain ns where ex: "getSchemaNodes fs f = Inr ns" and ns: "fileNodes fs f = ns"
    by (cases "getSchemaNodes fs f") (auto simp: fileNodes_def)
  from ex obtain ds where "scanSchema [] ds = Inr ns"
    by (auto simp: getSchemaNodes_def split: entry.splits)
  from scanSchema_Optional [OF this] have "\<forall>(c, t) \<in> set ns. \<exists>k. t = Optional k" by simp
  moreover from a ns have "(c, t) \<in> set ns" by (auto dest: map_of_SomeD)
  ultimately show ?thesis by blast
qed

lemma merged_schema_Optional:
  assumes ok: "merge env fs outfile rf files = (Inr (), fs')"
  shows "\<exists>schema recs. fs' outfile = Merged schema recs \<and>
           (\<forall>c t. schema c = Some t \<longrightarrow> (\<exists>k. t = Optional k))"
proof -
  from merge_output [OF ok] obtain m order where
    fs': "fs' = fs(outfile :=
       Merged m (concat (map (\<lambda>f. map (Read (fileNodes fs f)) (storedRows fs f)) order)))"
    and inv: "\<forall>c t. m c = Some t \<longleftrightarrow> binds fs (retained fs rf files) c t" by blast
  have "\<forall>c t. m c = Some t \<longrightarrow> (\<exists>k. t = Optional k)"
    using inv by (auto simp: binds_def dest: fileNodes_Optional)
  moreover from fs' have "fs' outfile =
      Merged m (concat (map (\<lambda>f. map (Read (fileNodes fs f)) (storedRows fs f)) order))"
    by simp
  ultimately show ?thesis by blast
qed

section \<open>The logical annotation of integer columns\<close>

text \<open>
  The type mapper consults the logical annotation for \<open>STRING\<close> only: every other annotation
  is ignored, so the signedness and the width an annotation states are lost. The unsigned
  nodes of the table are reached from the descriptor names \<open>UINT8\<close> to \<open>UINT64\<close> alone,
  which are not names of physical types.
\<close>

lemma annotation_ignored:
  "logical \<noteq> ''STRING'' \<Longrightarrow> logical' \<noteq> ''STRING'' \<Longrightarrow>
   schemaTypeToNode ty logical = Inr n \<Longrightarrow> schemaTypeToNode ty logical' = Inr n"
  by (auto simp: schemaTypeToNode_def split: option.splits)

lemma unsigned_node_needs_UINT_name:
  "schemaTypeToNode ty logical = Inr (Optional (UintNode b)) \<Longrightarrow>
   ty \<in> {''UINT8'', ''UINT16'', ''UINT32'', ''UINT64''}"
  by (auto simp: mapper_defs split: if_splits)

text \<open>
  Claim C6, at a failing input. \<^verbatim>\<open>in/u.parquet\<close> has the unsigned 64-bit column \<open>u\<close>
  (physical type INT64, annotation \<^verbatim>\<open>INT(64,false)\<close>) with the value 18446744073709551615.
  The extractor types the column \<^verbatim>\<open>parquet.Int(64)\<close>, signed; the merge ends normally, the
  output column \<open>u\<close> has that node and the record has the stored pattern, which the output
  reads as \<open>-1\<close>: the value of a column present in the source file is not carried forward
  unchanged.
\<close>

theorem unsigned_column_is_read_signed:
  "getSchemaNodes disk ''in/u.parquet'' = Inr [(''u'', Optional (IntNode 64))] \<and>
   merge quiet disk ''out.parquet'' [] [''in/u.parquet''] =
     (Inr (), disk(''out.parquet'' :=
        Merged [''u'' \<mapsto> Optional (IntNode 64)]
          [[''u'' \<mapsto> Int64Val 18446744073709551615]])) \<and>
   intValue (Optional (UintNode 64)) (Int64Val 18446744073709551615) =
     Some 18446744073709551615 \<and>
   intValue (Optional (IntNode 64)) (Int64Val 18446744073709551615) = Some (- 1)"
  by (simp add: run_defs)

section \<open>Where the output path is written\<close>

text \<open>
  \<^verbatim>\<open>merge\<close> calls \<^verbatim>\<open>os.Create(outfile)\<close> on the output path itself (line 309), before the
  first record is copied: once the schema loop and that call have succeeded, a file exists
  at the output path however the run ends.
\<close>

lemma merge_creates_outfile:
  assumes "scanFiles env fs rf 0 Map.empty [] files = Inr (m, fsch)"
      and "create_error env = None"
  shows "snd (merge env fs outfile rf files) outfile \<noteq> Missing"
  using assms by (simp add: merge_def Let_def split: option.splits prod.splits sum.splits)

lemma merge_copy_failure:
  assumes "scanFiles env fs rf 0 Map.empty [] files = Inr (m, fsch)"
      and "create_error env = None" and "config_error env = None"
      and "copyFiles env (fs(outfile := NotParquet)) (rangeOrder (files_order env) fsch)
             \<lparr>wschema = m, wrows = [], wcalls = 0\<rparr> = (Inl e, w)"
  shows "merge env fs outfile rf files = (Inl e, fs(outfile := NotParquet))"
  using assms by (simp add: merge_def)

text \<open>
  The sibling writer of the first program keeps to the temporary path: creating it leaves
  the final path as it was, and so does a \<^verbatim>\<open>Close\<close> that fails.
\<close>

lemma NewParquetMapWriter_final_path:
  "snd (NewParquetMapWriter env fs fname schema) fname = fs fname"
  by (simp add: NewParquetMapWriter_def Let_def split: option.splits)

lemma Close_final_path:
  assumes "fst (Close env rename_error fs w) \<noteq> Inr ()" and "tmpname w \<noteq> filename w"
  shows "snd (Close env rename_error fs w) (filename w) = fs (filename w)"
  using assms by (auto simp: Close_def Let_def split: option.splits)

text \<open>
  Claim C1, at a failing input. Nothing exists at \<^verbatim>\<open>out.parquet\<close>; the copy of
  \<^verbatim>\<open>in/t.parquet\<close> fails at its second \<^verbatim>\<open>Read\<close>; the run aborts with that error, and a
  file that is not a parquet file is left at \<^verbatim>\<open>out.parquet\<close>, the final output path.
\<close>

theorem aborted_merge_leaves_file_at_output_path:
  "disk ''out.parquet'' = Missing \<and>
   merge quiet disk ''out.parquet'' [] [''in/a.parquet'', ''in/t.parquet''] =
     (Inl (External ''unexpected EOF''), disk(''out.parquet'' := NotParquet)) \<and>
   snd (merge quiet disk ''out.parquet'' [] [''in/a.parquet'', ''in/t.parquet'']) ''out.parquet''
     = NotParquet"
  by (simp add: run_defs)

text \<open>
  Claim C2, at a failing input. With the flag \<^verbatim>\<open>-requireFields\<close> not given its value is the
  empty string, \<^verbatim>\<open>strings.Split\<close> turns it into the list of one empty name, and the file
  \<^verbatim>\<open>in/a.parquet\<close>, which has no column of that name, is excluded: the run ends normally
  with an output that has no column and no record.
\<close>

theorem empty_flag_excludes_every_file:
  "Split [] CHR '','' = [[]] \<and>
   findFiles (quiet\<lparr>read_dir := listing\<rparr>) ''in'' = Inr [''in/a.parquet''] \<and>
   getSchemaNodes disk ''in/a.parquet'' = Inr [(''x'', Optional (IntNode 64))] \<and>
   keep [(''x'', Optional (IntNode 64))] (Split [] CHR '','') = False \<and>
   main (quiet\<lparr>read_dir := listing\<rparr>) disk ''in'' ''out.parquet'' [] =
     (Inr (), disk(''out.parquet'' := Merged Map.empty []))"
  by (simp add: run_defs main_def findFiles_def listing_def HasSuffix_def)

text \<open>
  Claim C5, at a failing input. The same two files, in the same list, are copied in either
  order, as \<^verbatim>\<open>range fileSchema\<close> visits them: the two runs leave different outputs.
\<close>

theorem copy_order_follows_map_range:
  "merge quiet disk ''out.parquet'' [] [''in/a.parquet'', ''in/b.parquet''] =
     (Inr (), disk(''out.parquet'' :=
        Merged [''x'' \<mapsto> Optional (IntNode 64)] [[''x'' \<mapsto> Int64Val 1], [''x'' \<mapsto> Int64Val 2]])) \<and>
   merge (quiet\<lparr>files_order := [1]\<rparr>) disk ''out.parquet'' [] [''in/a.parquet'', ''in/b.parquet''] =
     (Inr (), disk(''out.parquet'' :=
        Merged [''x'' \<mapsto> Optional (IntNode 64)] [[''x'' \<mapsto> Int64Val 2], [''x'' \<mapsto> Int64Val 1]]))"
  by (simp add: run_defs)

end
